theory Spec2Isabelle
  imports Main
begin

section \<open>Cell values and Python string primitives\<close>

text \<open>
  A cell extracted from a PDF is either Python's \<open>None\<close> or a \<open>str\<close>. Cell text is
  modelled as a HOL \<open>string\<close>, whose characters are the code points 0..255; the
  whitespace set and the case mapping below are Python's on that range. Only the
  evaluations at concrete inputs depend on these two tables; the general theorems hold
  for \<open>strip\<close> and \<open>lower\<close> whatever the tables contain.
\<close>

datatype cell = PyNone | PyStr string

type_synonym row = "cell list"
type_synonym table = "row list"

text \<open>\<open>str(cell)\<close>\<close>

fun str_of :: "cell \<Rightarrow> string" where
  "str_of PyNone = ''None''"
| "str_of (PyStr s) = s"

text \<open>Truth value of a cell: \<open>None\<close> and the empty string are falsy.\<close>

fun truthy :: "cell \<Rightarrow> bool" where
  "truthy PyNone = False"
| "truthy (PyStr s) = (s \<noteq> [])"

text \<open>\<open>str.isspace\<close> on one character: TAB, LF, VT, FF, CR, FS, GS, RS, US, SPACE, NEL, NBSP.\<close>

definition isspace :: "char \<Rightarrow> bool" where
  "isspace c = (c \<in> set [CHR 0x09, CHR 0x0A, CHR 0x0B, CHR 0x0C, CHR 0x0D,
                          CHR 0x1C, CHR 0x1D, CHR 0x1E, CHR 0x1F, CHR 0x20,
                          CHR 0x85, CHR 0xA0])"

text \<open>\<open>s.strip()\<close>: drop leading and trailing whitespace.\<close>

definition strip :: "string \<Rightarrow> string" where
  "strip s = rev (dropWhile isspace (rev (dropWhile isspace s)))"

text \<open>\<open>s.lower()\<close>: A-Z and the upper-case letters of 0xC0..0xDE (0xD7 is the
  multiplication sign) move up by 32.\<close>

definition lower_char :: "char \<Rightarrow> char" where
  "lower_char c =
     (let n = (of_char c :: nat)
      in if (65 \<le> n \<and> n \<le> 90) \<or> (192 \<le> n \<and> n \<le> 222 \<and> n \<noteq> 215)
         then char_of (n + 32) else c)"

definition lower :: "string \<Rightarrow> string" where
  "lower s = map lower_char s"

text \<open>\<open>s.endswith(suffix)\<close>\<close>

definition endswith :: "string \<Rightarrow> string \<Rightarrow> bool" where
  "endswith s suf = (length suf \<le> length s \<and> drop (length s - length suf) s = suf)"

section \<open>Header Deduplicator: \<open>is_header_row\<close>\<close>

text \<open>The \<open>for i in range(...)\<close> loop of \<open>is_header_row\<close>, over the remaining indices.\<close>

fun header_loop :: "nat list \<Rightarrow> row \<Rightarrow> row \<Rightarrow> bool" where
  "header_loop [] row header_row = False"
| "header_loop (i # idxs) row header_row =
     (if lower (strip (str_of (row ! i))) = lower (strip (str_of (header_row ! i)))
      then True
      else header_loop idxs row header_row)"

definition is_header_row :: "row \<Rightarrow> row \<Rightarrow> bool" where
  "is_header_row row header_row =
     (if row = [] \<or> header_row = [] then False
      else header_loop [0 ..< min 3 (min (length row) (length header_row))] row header_row)"

section \<open>Row Cleaner: \<open>clean_rows\<close>\<close>

text \<open>The list comprehension building \<open>cleaned_row\<close>.\<close>

definition clean_row :: "row \<Rightarrow> row" where
  "clean_row row =
     map (\<lambda>cell. if cell \<noteq> PyNone then PyStr (strip (str_of cell)) else PyStr '''') row"

text \<open>The \<open>for row in rows\<close> loop, with the list \<open>cleaned\<close> built so far.\<close>

fun clean_rows_loop :: "row list \<Rightarrow> row list \<Rightarrow> row list" where
  "clean_rows_loop [] cleaned = cleaned"
| "clean_rows_loop (row # rows) cleaned =
     (let cleaned_row = clean_row row
      in if list_ex truthy cleaned_row
         then clean_rows_loop rows (cleaned @ [cleaned_row])
         else clean_rows_loop rows cleaned)"

definition clean_rows :: "row list \<Rightarrow> row list" where
  "clean_rows rows = clean_rows_loop rows []"

section \<open>Extraction results and the uploaded document\<close>

record extraction_result =
  rows :: "row list"
  pages_processed :: nat
  method_used :: string
  total_rows :: nat

text \<open>
  What the two libraries deliver for the uploaded file. \<open>Inl msg\<close> is an exception
  raised by the library call, with its message.
  \<^item> \<open>plumber_pages\<close>: for each page of \<open>pdfplumber.open(path).pages\<close>, in page order,
    the list returned by \<open>page.extract_tables()\<close>;
  \<^item> \<open>lattice_tables\<close>: the tables of \<open>camelot.read_pdf(..., flavor='lattice')\<close>, each as
    \<open>table.df.values.tolist()\<close>;
  \<^item> \<open>stream_tables\<close>: the same for \<open>flavor='stream'\<close>.
\<close>

record pdf_file =
  plumber_pages :: "string + table list list"
  lattice_tables :: "string + table list"
  stream_tables :: "string + table list"

text \<open>The library calls made while serving a request, in the order they are made.\<close>

datatype call = PdfplumberOpen | CamelotLattice | CamelotStream

section \<open>Table Merger: the body shared by both extractors\<close>

text \<open>
  The statements after the row filter, identical in both extractors: a table with fewer
  than 2 filtered rows is skipped; the first table is appended whole; a later one is
  appended without its first row when that row matches the first accumulated row.
\<close>

definition merge_table :: "row list \<Rightarrow> row list \<Rightarrow> row list" where
  "merge_table all_rows filtered_rows =
     (if length filtered_rows < 2 then all_rows
      else if all_rows = [] then all_rows @ filtered_rows
      else if is_header_row (filtered_rows ! 0) (all_rows ! 0)
           then all_rows @ drop 1 filtered_rows
           else all_rows @ filtered_rows)"

section \<open>Primary Extractor: \<open>extract_with_pdfplumber\<close>\<close>

text \<open>The row filter of the primary extractor.\<close>

definition plumber_filter :: "table \<Rightarrow> row list" where
  "plumber_filter table =
     filter (\<lambda>row. row \<noteq> [] \<and> list_ex (\<lambda>cell. truthy cell \<and> strip (str_of cell) \<noteq> []) row)
       table"

text \<open>The inner loop \<open>for table in tables\<close>.\<close>

fun plumber_tables_loop :: "table list \<Rightarrow> row list \<Rightarrow> row list" where
  "plumber_tables_loop [] all_rows = all_rows"
| "plumber_tables_loop (table # tables) all_rows =
     plumber_tables_loop tables (merge_table all_rows (plumber_filter table))"

text \<open>The outer loop over the pages, on the state \<open>(all_rows, pages_processed)\<close>;
  the counter is named \<open>processed\<close> here.\<close>

fun plumber_pages_loop :: "table list list \<Rightarrow> row list \<times> nat \<Rightarrow> row list \<times> nat" where
  "plumber_pages_loop [] st = st"
| "plumber_pages_loop (tables # pages) (all_rows, processed) =
     (if tables = [] then plumber_pages_loop pages (all_rows, processed)
      else plumber_pages_loop pages (plumber_tables_loop tables all_rows, processed + 1))"

text \<open>The extractor's result once the file is open.\<close>

definition plumber_result :: "table list list \<Rightarrow> extraction_result" where
  "plumber_result pages =
     (case plumber_pages_loop pages ([], 0) of
        (all_rows, processed) \<Rightarrow>
          \<lparr>rows = clean_rows all_rows,
           pages_processed = processed,
           method_used = ''pdfplumber'',
           total_rows = length all_rows\<rparr>)"

definition extract_with_pdfplumber ::
    "pdf_file \<Rightarrow> call list \<Rightarrow> (string + extraction_result) \<times> call list" where
  "extract_with_pdfplumber pdf log =
     (case plumber_pages pdf of
        Inl e \<Rightarrow> (Inl e, log @ [PdfplumberOpen])
      | Inr pages \<Rightarrow> (Inr (plumber_result pages), log @ [PdfplumberOpen]))"

section \<open>Fallback Extractor: \<open>extract_with_camelot\<close>\<close>

text \<open>The row filter of the fallback extractor (no test of the row itself).\<close>

definition camelot_filter :: "table \<Rightarrow> row list" where
  "camelot_filter rws =
     filter (list_ex (\<lambda>cell. truthy cell \<and> strip (str_of cell) \<noteq> [])) rws"

text \<open>The loop \<open>for table_num, table in enumerate(tables)\<close>.\<close>

fun camelot_tables_loop :: "table list \<Rightarrow> row list \<Rightarrow> row list" where
  "camelot_tables_loop [] all_rows = all_rows"
| "camelot_tables_loop (table # tables) all_rows =
     camelot_tables_loop tables (merge_table all_rows (camelot_filter table))"

text \<open>The extractor's result from the tables that \<open>camelot.read_pdf\<close> returned.\<close>

definition camelot_result :: "table list \<Rightarrow> extraction_result" where
  "camelot_result tables =
     (if tables = [] then
        \<lparr>rows = [], pages_processed = 0, method_used = ''camelot'', total_rows = 0\<rparr>
      else
        (let all_rows = camelot_tables_loop tables []
         in \<lparr>rows = clean_rows all_rows,
             pages_processed = length tables,
             method_used = ''camelot'',
             total_rows = length all_rows\<rparr>))"

text \<open>
  The \<open>try\<close>/\<open>except\<close> around lattice mode: any exception there leads to the stream-mode
  call, whose own exception is not caught.
\<close>

definition extract_with_camelot ::
    "pdf_file \<Rightarrow> call list \<Rightarrow> (string + extraction_result) \<times> call list" where
  "extract_with_camelot pdf log =
     (case lattice_tables pdf of
        Inr tables \<Rightarrow> (Inr (camelot_result tables), log @ [CamelotLattice])
      | Inl e \<Rightarrow>
          (case stream_tables pdf of
             Inr tables \<Rightarrow> (Inr (camelot_result tables), log @ [CamelotLattice, CamelotStream])
           | Inl e' \<Rightarrow> (Inl e', log @ [CamelotLattice, CamelotStream])))"

section \<open>Strategy Selector: \<open>parse_pdf\<close>\<close>

record upload =
  filename :: string
  content :: pdf_file

datatype response =
    Ok200 extraction_result
  | Error400 string
  | Error500 string

text \<open>
  The handler of \<open>POST /parse\<close>. The argument is \<open>request.files.get('file')\<close>. Writing
  the upload to a temporary file and deleting it afterwards are not modelled. A result
  is a non-empty dictionary, so \<open>not result\<close> is false and the test is on the rows.
\<close>

definition parse_pdf :: "upload option \<Rightarrow> call list \<Rightarrow> response \<times> call list" where
  "parse_pdf req log =
     (case req of
        None \<Rightarrow> (Error400 ''No file uploaded'', log)
      | Some file \<Rightarrow>
          if filename file = [] then (Error400 ''Empty filename'', log)
          else if \<not> endswith (lower (filename file)) ''.pdf''
          then (Error400 ''File must be a PDF'', log)
          else
            (case extract_with_pdfplumber (content file) log of
               (Inl e, log1) \<Rightarrow> (Error500 (''Failed to parse PDF: '' @ e), log1)
             | (Inr result, log1) \<Rightarrow>
                 if length (rows result) < 2 then
                   (case extract_with_camelot (content file) log1 of
                      (Inl e, log2) \<Rightarrow> (Error500 (''Failed to parse PDF: '' @ e), log2)
                    | (Inr result2, log2) \<Rightarrow> (Ok200 result2, log2))
                 else (Ok200 result, log1)))"

section \<open>The page count as the specification words it\<close>

text \<open>
  Follows the specification's words, not the source: the number of pages that yield at
  least one surviving table, a table being kept when at least 2 of its rows pass the
  primary extractor's row filter. It is compared with \<open>pages_processed\<close> below.
\<close>

definition pages_with_surviving_table :: "table list list \<Rightarrow> nat" where
  "pages_with_surviving_table pages =
     length (filter (list_ex (\<lambda>table. 2 \<le> length (plumber_filter table))) pages)"

section \<open>Facts about the string primitives and the cleaner\<close>

lemma header_loop_iff:
  "header_loop idxs row h \<longleftrightarrow>
     list_ex (\<lambda>i. lower (strip (str_of (row ! i))) = lower (strip (str_of (h ! i)))) idxs"
  by (induction idxs) auto

lemma dropWhile_id_if: "xs = [] \<or> \<not> P (hd xs) \<Longrightarrow> dropWhile P xs = xs"
  by (cases xs) auto

lemma strip_no_leading: "strip s = [] \<or> \<not> isspace (hd (strip s))"
proof (cases "strip s = []")
  case True
  then show ?thesis by simp
next
  case False
  define a where "a = dropWhile isspace s"
  define b where "b = dropWhile isspace (rev a)"
  have sb: "strip s = rev b" by (simp add: strip_def a_def b_def)
  with False have bne: "b \<noteq> []" by simp
  have "rev a = takeWhile isspace (rev a) @ b" by (simp add: b_def)
  then have "a = rev b @ rev (takeWhile isspace (rev a))"
    by (metis rev_append rev_rev_ident)
  with bne have hd_eq: "hd a = hd (rev b)" and ane: "a \<noteq> []"
    by (metis hd_append2 rev_is_Nil_conv, metis append_is_Nil_conv rev_is_Nil_conv)
  from ane have "\<not> isspace (hd a)" unfolding a_def by (rule hd_dropWhile)
  with hd_eq sb show ?thesis by simp
qed

lemma strip_no_trailing: "dropWhile isspace (rev (strip s)) = rev (strip s)"
  by (simp add: strip_def)

lemma strip_idem: "strip (strip s) = strip s"
proof -
  have "dropWhile isspace (strip s) = strip s"
    using strip_no_leading [of s] by (rule dropWhile_id_if)
  then have "strip (strip s) = rev (dropWhile isspace (rev (strip s)))"
    by (simp add: strip_def)
  also have "\<dots> = strip s" by (simp add: strip_no_trailing)
  finally show ?thesis .
qed

lemma strip_Nil: "strip [] = []"
  by (simp add: strip_def)

lemma clean_rows_loop_acc:
  "clean_rows_loop rws cleaned = cleaned @ filter (list_ex truthy) (map clean_row rws)"
  by (induction rws arbitrary: cleaned) (simp_all add: Let_def)

lemma clean_rows_filter_map:
  "clean_rows rws = filter (list_ex truthy) (map clean_row rws)"
  by (simp add: clean_rows_def clean_rows_loop_acc)

lemma clean_row_idem: "clean_row (clean_row r) = clean_row r"
  by (simp add: clean_row_def strip_idem strip_Nil)

lemma clean_row_cells: "c \<in> set (clean_row r) \<Longrightarrow> \<exists>s. c = PyStr s \<and> strip s = s"
  by (auto simp: clean_row_def strip_idem strip_Nil)

section \<open>Claims about the Header Deduplicator\<close>

text \<open>
  Claim C4. \<open>is_header_row\<close> returns true exactly when some position
  \<open>i < min(3, len(row), len(header_row))\<close> holds cells that are equal after \<open>str\<close>,
  \<open>strip\<close> and \<open>lower\<close>; with an empty candidate or an empty signature it returns false.
\<close>

theorem is_header_row_iff:
  "(is_header_row row header_row \<longleftrightarrow>
      (\<exists>i < min 3 (min (length row) (length header_row)).
         lower (strip (str_of (row ! i))) = lower (strip (str_of (header_row ! i)))))
   \<and> \<not> is_header_row [] header_row \<and> \<not> is_header_row row []"
proof -
  have "is_header_row row header_row \<longleftrightarrow>
      (\<exists>i < min 3 (min (length row) (length header_row)).
         lower (strip (str_of (row ! i))) = lower (strip (str_of (header_row ! i))))"
  proof (cases "row = [] \<or> header_row = []")
    case True
    then show ?thesis by (auto simp: is_header_row_def)
  next
    case False
    then show ?thesis
      by (auto simp: is_header_row_def header_loop_iff list_ex_iff)
  qed
  then show ?thesis by (simp add: is_header_row_def)
qed

text \<open>
  Claim C9. A non-empty row is a header row with respect to itself.
\<close>

theorem is_header_row_refl: "H \<noteq> [] \<Longrightarrow> is_header_row H H"
proof -
  assume "H \<noteq> []"
  then have "0 < min 3 (min (length H) (length H))" by simp
  then have "[0 ..< min 3 (min (length H) (length H))] = 0 # [Suc 0 ..< min 3 (min (length H) (length H))]"
    by (simp add: upt_conv_Cons)
  with \<open>H \<noteq> []\<close> show ?thesis by (simp add: is_header_row_def)
qed

theorem is_header_row_refl_witness:
  "[PyStr ''Date'', PyStr ''Description''] \<noteq> []
   \<and> is_header_row [PyStr ''Date'', PyStr ''Description''] [PyStr ''Date'', PyStr ''Description'']"
  using is_header_row_refl [of "[PyStr ''Date'', PyStr ''Description'']"] by simp

section \<open>Claims about the Row Cleaner\<close>

text \<open>
  Claim C5. \<open>clean_rows\<close> maps every cell to a string (\<open>None\<close> to the empty string, a
  string to its trimmed form), drops exactly the rows whose cells are then all empty, and
  keeps the remaining rows in their order; every cell of the output is a string that
  trimming leaves unchanged. The function is total: no input makes it fail.
\<close>

theorem clean_rows_spec:
  "clean_rows rws =
     filter (\<lambda>r. \<not> list_all (\<lambda>c. c = PyStr []) r)
       (map (map (\<lambda>c. case c of PyNone \<Rightarrow> PyStr [] | PyStr s \<Rightarrow> PyStr (strip s))) rws)
   \<and> (\<forall>r \<in> set (clean_rows rws). \<forall>c \<in> set r. \<exists>s. c = PyStr s \<and> strip s = s)"
proof -
  have cell: "(\<lambda>cell. if cell \<noteq> PyNone then PyStr (strip (str_of cell)) else PyStr [])
      = (\<lambda>c. case c of PyNone \<Rightarrow> PyStr [] | PyStr s \<Rightarrow> PyStr (strip s))"
    by (auto simp: fun_eq_iff split: cell.splits)
  have keep: "list_ex truthy (clean_row r) \<longleftrightarrow> \<not> list_all (\<lambda>c. c = PyStr []) (clean_row r)" for r
    by (induction r) (auto simp: clean_row_def)
  have "filter (list_ex truthy) (map clean_row rws)
      = filter (\<lambda>r. \<not> list_all (\<lambda>c. c = PyStr []) r) (map clean_row rws)"
    by (rule filter_cong) (auto simp: keep)
  then have A: "clean_rows rws =
     filter (\<lambda>r. \<not> list_all (\<lambda>c. c = PyStr []) r)
       (map (map (\<lambda>c. case c of PyNone \<Rightarrow> PyStr [] | PyStr s \<Rightarrow> PyStr (strip s))) rws)"
    using cell by (simp add: clean_rows_filter_map clean_row_def [abs_def])
  have B: "\<forall>r \<in> set (clean_rows rws). \<forall>c \<in> set r. \<exists>s. c = PyStr s \<and> strip s = s"
    by (auto simp: clean_rows_filter_map dest: clean_row_cells)
  from A B show ?thesis by blast
qed

theorem clean_rows_spec_witness:
  "[PyStr [], PyStr ''x''] \<in> set (clean_rows [[PyNone, PyStr '' x ''], [PyNone, PyStr ''  '']])
   \<and> PyStr ''x'' \<in> set [PyStr [], PyStr ''x'']
   \<and> (\<exists>s. PyStr ''x'' = PyStr s \<and> strip s = s)"
proof -
  have m: "[PyStr [], PyStr ''x''] \<in> set (clean_rows [[PyNone, PyStr '' x ''], [PyNone, PyStr ''  '']])"
    by (simp add: clean_rows_def clean_row_def strip_def isspace_def)
  have c: "PyStr ''x'' \<in> set [PyStr [], PyStr ''x'']" by simp
  from clean_rows_spec [of "[[PyNone, PyStr '' x ''], [PyNone, PyStr ''  '']]"] m c
  show ?thesis by blast
qed

text \<open>
  Claim C8. Cleaning is idempotent.
\<close>

theorem clean_rows_idem: "clean_rows (clean_rows rws) = clean_rows rws"
  unfolding clean_rows_filter_map
  by (induction rws) (simp_all add: clean_row_idem)

section \<open>Facts about the Table Merger and the extractors\<close>

lemma live_clean_row: "list_ex (\<lambda>cell. truthy cell \<and> strip (str_of cell) \<noteq> []) r \<Longrightarrow> list_ex truthy (clean_row r)"
  by (induction r) (auto simp: clean_row_def)

lemma clean_rows_length_live:
  "\<forall>r \<in> set rws. list_ex (\<lambda>cell. truthy cell \<and> strip (str_of cell) \<noteq> []) r \<Longrightarrow> length (clean_rows rws) = length rws"
  by (induction rws) (simp_all add: clean_rows_filter_map live_clean_row)

lemma plumber_filter_live:
  "r \<in> set (plumber_filter t) \<Longrightarrow> list_ex (\<lambda>cell. truthy cell \<and> strip (str_of cell) \<noteq> []) r"
  by (simp add: plumber_filter_def)

lemma camelot_filter_live:
  "r \<in> set (camelot_filter t) \<Longrightarrow> list_ex (\<lambda>cell. truthy cell \<and> strip (str_of cell) \<noteq> []) r"
  by (simp add: camelot_filter_def)

lemma set_merge_table: "set (merge_table all_rows t) \<subseteq> set all_rows \<union> set t"
  by (auto simp: merge_table_def dest: in_set_dropD)

lemma plumber_tables_loop_foldl:
  "plumber_tables_loop tables all_rows = foldl merge_table all_rows (map plumber_filter tables)"
  by (induction tables arbitrary: all_rows) simp_all

lemma camelot_tables_loop_foldl:
  "camelot_tables_loop tables all_rows = foldl merge_table all_rows (map camelot_filter tables)"
  by (induction tables arbitrary: all_rows) simp_all

lemma plumber_pages_loop_rows:
  "fst (plumber_pages_loop pages (all_rows, n)) =
     foldl merge_table all_rows (map plumber_filter (concat pages))"
  by (induction pages arbitrary: all_rows n) (simp_all add: plumber_tables_loop_foldl)

lemma plumber_pages_loop_count:
  "snd (plumber_pages_loop pages (all_rows, n)) = n + length (filter (\<lambda>tables. tables \<noteq> []) pages)"
  by (induction pages arbitrary: all_rows n) simp_all

lemma set_foldl_merge_table:
  "set (foldl merge_table all_rows ts) \<subseteq> set all_rows \<union> \<Union> (set ` set ts)"
proof (induction ts arbitrary: all_rows)
  case Nil
  show ?case by simp
next
  case (Cons t ts)
  have "set (foldl merge_table (merge_table all_rows t) ts)
          \<subseteq> set (merge_table all_rows t) \<union> \<Union> (set ` set ts)"
    by (rule Cons.IH)
  with set_merge_table [of all_rows t] show ?case by auto
qed

lemma foldl_merge_table_skip:
  "foldl merge_table all_rows ts = foldl merge_table all_rows (filter (\<lambda>t. 2 \<le> length t) ts)"
  by (induction ts arbitrary: all_rows) (auto simp: merge_table_def)

lemma foldl_merge_table_started:
  assumes "h \<noteq> []" and "\<forall>t \<in> set ts. 2 \<le> length t"
  shows "foldl merge_table (h @ acc) ts =
           h @ acc @ concat (map (\<lambda>t. if is_header_row (t ! 0) (h ! 0) then drop 1 t else t) ts)"
  using assms(2)
proof (induction ts arbitrary: acc)
  case Nil
  show ?case by simp
next
  case (Cons t ts)
  from Cons.prems have t2: "\<not> length t < 2" and rest: "\<forall>t \<in> set ts. 2 \<le> length t"
    by auto
  from assms(1) have hd0: "(h @ acc) ! 0 = h ! 0" and ne: "h @ acc \<noteq> []"
    by (simp_all add: nth_append)
  have step: "merge_table (h @ acc) t =
                h @ (acc @ (if is_header_row (t ! 0) (h ! 0) then drop 1 t else t))"
    using t2 hd0 assms(1) by (simp add: merge_table_def)
  show ?case
    by (simp only: foldl_Cons step Cons.IH [OF rest]) simp
qed

lemma foldl_merge_table_surviving:
  assumes "\<forall>t \<in> set (t1 # ts). 2 \<le> length t"
  shows "foldl merge_table [] (t1 # ts) =
           t1 @ concat (map (\<lambda>t. if is_header_row (t ! 0) (t1 ! 0) then drop 1 t else t) ts)"
proof -
  from assms have l1: "\<not> length t1 < 2" and ne: "t1 \<noteq> []" and rest: "\<forall>t \<in> set ts. 2 \<le> length t"
    by auto
  have "merge_table [] t1 = t1 @ []" using l1 by (simp add: merge_table_def)
  then have "foldl merge_table [] (t1 # ts) = foldl merge_table (t1 @ []) ts"
    by (simp only: foldl_Cons)
  also have "\<dots> = t1 @ [] @ concat (map (\<lambda>t. if is_header_row (t ! 0) (t1 ! 0) then drop 1 t else t) ts)"
    using ne rest by (rule foldl_merge_table_started)
  finally show ?thesis by simp
qed

lemma length_concat_dedup:
  assumes "\<forall>t \<in> set ts. 2 \<le> length t"
  shows "length (concat (map (\<lambda>t. if is_header_row (t ! 0) h then drop 1 t else t) ts)) =
         (\<Sum>t\<leftarrow>ts. length t - (if is_header_row (t ! 0) h then 1 else 0))"
  using assms by (induction ts) auto

lemma foldl_merge_table_live:
  assumes "\<forall>t \<in> set ts. \<forall>r \<in> set t. list_ex (\<lambda>cell. truthy cell \<and> strip (str_of cell) \<noteq> []) r"
  shows "\<forall>r \<in> set (foldl merge_table [] ts). list_ex (\<lambda>cell. truthy cell \<and> strip (str_of cell) \<noteq> []) r"
  using set_foldl_merge_table [of "[]" ts] assms by auto

lemma plumber_result_fields:
  "rows (plumber_result pages) = clean_rows (foldl merge_table [] (map plumber_filter (concat pages)))"
  "total_rows (plumber_result pages) = length (foldl merge_table [] (map plumber_filter (concat pages)))"
  "pages_processed (plumber_result pages) = length (filter (\<lambda>tables. tables \<noteq> []) pages)"
  "method_used (plumber_result pages) = ''pdfplumber''"
  using plumber_pages_loop_rows [of pages "[]" 0] plumber_pages_loop_count [of pages "[]" 0]
  by (simp_all add: plumber_result_def case_prod_beta)

lemma camelot_result_fields:
  "rows (camelot_result tables) = clean_rows (foldl merge_table [] (map camelot_filter tables))"
  "total_rows (camelot_result tables) = length (foldl merge_table [] (map camelot_filter tables))"
  "pages_processed (camelot_result tables) = length tables"
  "method_used (camelot_result tables) = ''camelot''"
  by (simp_all add: camelot_result_def camelot_tables_loop_foldl clean_rows_def Let_def)

lemma plumber_result_count: "length (rows (plumber_result pages)) = total_rows (plumber_result pages)"
  unfolding plumber_result_fields
  by (rule clean_rows_length_live, rule foldl_merge_table_live) (auto dest: plumber_filter_live)

lemma camelot_result_count: "length (rows (camelot_result tables)) = total_rows (camelot_result tables)"
  unfolding camelot_result_fields
  by (rule clean_rows_length_live, rule foldl_merge_table_live) (auto dest: camelot_filter_live)

lemma extract_with_pdfplumber_log: "snd (extract_with_pdfplumber pdf log) = log @ [PdfplumberOpen]"
  by (simp add: extract_with_pdfplumber_def split: sum.splits)

lemma extract_with_pdfplumber_result:
  "fst (extract_with_pdfplumber pdf log) = map_sum id plumber_result (plumber_pages pdf)"
  by (simp add: extract_with_pdfplumber_def split: sum.splits)

lemma extract_with_camelot_log:
  "snd (extract_with_camelot pdf log) =
     log @ CamelotLattice # (if isl (lattice_tables pdf) then [CamelotStream] else [])"
  by (simp add: extract_with_camelot_def split: sum.splits)

lemma extract_with_camelot_result:
  "fst (extract_with_camelot pdf log) =
     (case lattice_tables pdf of
        Inr tables \<Rightarrow> Inr (camelot_result tables)
      | Inl e \<Rightarrow> map_sum id camelot_result (stream_tables pdf))"
  by (simp add: extract_with_camelot_def split: sum.splits)

section \<open>Claims about the Strategy Selector\<close>

text \<open>
  Claim C1. For an accepted upload, \<open>parse_pdf\<close> calls the primary extractor first and
  once. The fallback extractor is entered (its first statement is the lattice-mode call,
  which occurs nowhere else) exactly when the primary extractor returned a result with
  fewer than 2 rows; the response is then whatever the fallback extractor produced, with
  no test of its row count. When the primary result has 2 or more rows it is the
  response and no camelot call is made.
\<close>

theorem fallback_iff_primary_under_two_rows:
  assumes "filename file \<noteq> []" and "endswith (lower (filename file)) ''.pdf''"
  shows "(\<exists>rest. snd (parse_pdf (Some file) []) = PdfplumberOpen # rest \<and> PdfplumberOpen \<notin> set rest)
       \<and> (CamelotLattice \<in> set (snd (parse_pdf (Some file) [])) \<longleftrightarrow>
            (\<exists>r. fst (extract_with_pdfplumber (content file) []) = Inr r \<and> length (rows r) < 2))
       \<and> (CamelotLattice \<in> set (snd (parse_pdf (Some file) [])) \<longrightarrow>
            fst (parse_pdf (Some file) []) =
              (case fst (extract_with_camelot (content file) [PdfplumberOpen]) of
                 Inl e \<Rightarrow> Error500 (''Failed to parse PDF: '' @ e)
               | Inr result \<Rightarrow> Ok200 result))
       \<and> (\<forall>r. fst (extract_with_pdfplumber (content file) []) = Inr r \<and> 2 \<le> length (rows r) \<longrightarrow>
            parse_pdf (Some file) [] = (Ok200 r, [PdfplumberOpen]))"
proof -
  obtain out1 where p: "extract_with_pdfplumber (content file) [] = (out1, [PdfplumberOpen])"
    using extract_with_pdfplumber_log [of "content file" "[]"]
    by (cases "extract_with_pdfplumber (content file) []") simp
  obtain out2 log2 where c: "extract_with_camelot (content file) [PdfplumberOpen] = (out2, log2)"
    by (cases "extract_with_camelot (content file) [PdfplumberOpen]")
  have l2: "log2 = PdfplumberOpen # CamelotLattice #
                     (if isl (lattice_tables (content file)) then [CamelotStream] else [])"
    using extract_with_camelot_log [of "content file" "[PdfplumberOpen]"] c by simp
  show ?thesis
  proof (cases out1)
    case (Inl e)
    with assms p show ?thesis by (simp add: parse_pdf_def)
  next
    case (Inr r)
    show ?thesis
    proof (cases "length (rows r) < 2")
      case True
      with assms p c l2 Inr show ?thesis
        by (cases out2) (simp_all add: parse_pdf_def)
    next
      case False
      with assms p Inr show ?thesis by (simp add: parse_pdf_def)
    qed
  qed
qed

theorem fallback_iff_primary_under_two_rows_witness:
  "filename \<lparr>filename = ''Statement.PDF'',
             content = \<lparr>plumber_pages = Inr [[[[PyStr ''Page 1 of 3'']]]],
                        lattice_tables = Inl ''boom'',
                        stream_tables = Inr [[[PyStr ''Date''], [PyStr ''01/01'']]]\<rparr>\<rparr> \<noteq> []
   \<and> endswith (lower (filename \<lparr>filename = ''Statement.PDF'',
             content = \<lparr>plumber_pages = Inr [[[[PyStr ''Page 1 of 3'']]]],
                        lattice_tables = Inl ''boom'',
                        stream_tables = Inr [[[PyStr ''Date''], [PyStr ''01/01'']]]\<rparr>\<rparr>)) ''.pdf''
   \<and> (CamelotLattice \<in> set (snd (parse_pdf (Some \<lparr>filename = ''Statement.PDF'',
             content = \<lparr>plumber_pages = Inr [[[[PyStr ''Page 1 of 3'']]]],
                        lattice_tables = Inl ''boom'',
                        stream_tables = Inr [[[PyStr ''Date''], [PyStr ''01/01'']]]\<rparr>\<rparr>) []))
        \<longleftrightarrow> (\<exists>r. fst (extract_with_pdfplumber \<lparr>plumber_pages = Inr [[[[PyStr ''Page 1 of 3'']]]],
                        lattice_tables = Inl ''boom'',
                        stream_tables = Inr [[[PyStr ''Date''], [PyStr ''01/01'']]]\<rparr> []) = Inr r
                 \<and> length (rows r) < 2))"
proof -
  have h1: "filename \<lparr>filename = ''Statement.PDF'',
             content = \<lparr>plumber_pages = Inr [[[[PyStr ''Page 1 of 3'']]]],
                        lattice_tables = Inl ''boom'',
                        stream_tables = Inr [[[PyStr ''Date''], [PyStr ''01/01'']]]\<rparr>\<rparr> \<noteq> []"
    by simp
  have "endswith (lower ''Statement.PDF'') ''.pdf''" by code_simp
  then have h2: "endswith (lower (filename \<lparr>filename = ''Statement.PDF'',
             content = \<lparr>plumber_pages = Inr [[[[PyStr ''Page 1 of 3'']]]],
                        lattice_tables = Inl ''boom'',
                        stream_tables = Inr [[[PyStr ''Date''], [PyStr ''01/01'']]]\<rparr>\<rparr>)) ''.pdf''"
    by simp
  from fallback_iff_primary_under_two_rows [OF h1 h2] h1 h2 show ?thesis by simp
qed

section \<open>Claims about the Primary Extractor\<close>

text \<open>
  Claim C2, as amended. \<open>pages_processed\<close> of the primary extractor is the number of
  pages for which \<open>extract_tables\<close> returned at least one table, whether or not a table
  of the page survives the size filter; it is therefore at least the number of pages
  with a surviving table.
\<close>

theorem pages_processed_counts_pages_with_tables:
  "pages_processed (plumber_result pages) = length (filter (\<lambda>tables. tables \<noteq> []) pages)
   \<and> pages_with_surviving_table pages \<le> pages_processed (plumber_result pages)"
proof -
  have "pages_with_surviving_table pages \<le> length (filter (\<lambda>tables. tables \<noteq> []) pages)"
    by (induction pages) (auto simp: pages_with_surviving_table_def)
  then show ?thesis by (simp add: plumber_result_fields)
qed

text \<open>
  Claim C2 as stated fails: a document of one page whose only table has a single
  non-empty row has no surviving table, and its \<open>pages_processed\<close> is 1.
\<close>

theorem pages_processed_counterexample:
  "pages_processed (plumber_result [[[[PyStr ''Page 1 of 3'']]]]) = 1
   \<and> pages_with_surviving_table [[[[PyStr ''Page 1 of 3'']]]] = 0"
  by (simp add: plumber_result_def pages_with_surviving_table_def plumber_filter_def merge_table_def)

section \<open>Claims about the Table Merger\<close>

text \<open>
  Claim C3. Let the surviving tables of a document be the filtered tables with at least
  2 rows, in extraction order, \<open>t1\<close> the first of them. In both extractors the merged
  rows are \<open>t1\<close> followed by the later surviving tables in their order, each without its
  first row when that row matches the first row of \<open>t1\<close> under \<open>is_header_row\<close>, and
  \<open>total_rows\<close> is \<open>len(t1)\<close> plus, for each later table, its length minus 1 on a header
  match and minus 0 otherwise.
\<close>

theorem merged_rows_of_surviving_tables:
  "(filter (\<lambda>t. 2 \<le> length t) (map plumber_filter (concat pages)) = t1 # ts \<longrightarrow>
      fst (plumber_pages_loop pages ([], 0)) =
        t1 @ concat (map (\<lambda>t. if is_header_row (t ! 0) (t1 ! 0) then drop 1 t else t) ts)
      \<and> total_rows (plumber_result pages) =
        length t1 + (\<Sum>t\<leftarrow>ts. length t - (if is_header_row (t ! 0) (t1 ! 0) then 1 else 0)))
   \<and> (filter (\<lambda>t. 2 \<le> length t) (map camelot_filter tables) = u1 # us \<longrightarrow>
      camelot_tables_loop tables [] =
        u1 @ concat (map (\<lambda>t. if is_header_row (t ! 0) (u1 ! 0) then drop 1 t else t) us)
      \<and> total_rows (camelot_result tables) =
        length u1 + (\<Sum>t\<leftarrow>us. length t - (if is_header_row (t ! 0) (u1 ! 0) then 1 else 0)))"
proof -
  have merged: "foldl merge_table [] raw =
          s1 @ concat (map (\<lambda>t. if is_header_row (t ! 0) (s1 ! 0) then drop 1 t else t) ss)
        \<and> length (foldl merge_table [] raw) =
          length s1 + (\<Sum>t\<leftarrow>ss. length t - (if is_header_row (t ! 0) (s1 ! 0) then 1 else 0))"
    if surv: "filter (\<lambda>t. 2 \<le> length t) raw = s1 # ss" for raw :: "row list list" and s1 ss
  proof -
    have "set (s1 # ss) = {t \<in> set raw. 2 \<le> length t}"
      by (simp only: surv [symmetric] set_filter)
    then have big: "\<forall>t \<in> set (s1 # ss). 2 \<le> length t" by blast
    then have rest: "\<forall>t \<in> set ss. 2 \<le> length t" by simp
    have "foldl merge_table [] raw = foldl merge_table [] (s1 # ss)"
      by (simp only: surv [symmetric] foldl_merge_table_skip [symmetric])
    also have "\<dots> = s1 @ concat (map (\<lambda>t. if is_header_row (t ! 0) (s1 ! 0) then drop 1 t else t) ss)"
      using big by (rule foldl_merge_table_surviving)
    finally have eq: "foldl merge_table [] raw =
        s1 @ concat (map (\<lambda>t. if is_header_row (t ! 0) (s1 ! 0) then drop 1 t else t) ss)" .
    show ?thesis
      by (simp only: eq length_append length_concat_dedup [OF rest])
  qed
  have primary:
    "filter (\<lambda>t. 2 \<le> length t) (map plumber_filter (concat pages)) = t1 # ts \<longrightarrow>
      fst (plumber_pages_loop pages ([], 0)) =
        t1 @ concat (map (\<lambda>t. if is_header_row (t ! 0) (t1 ! 0) then drop 1 t else t) ts)
      \<and> total_rows (plumber_result pages) =
        length t1 + (\<Sum>t\<leftarrow>ts. length t - (if is_header_row (t ! 0) (t1 ! 0) then 1 else 0))"
  proof
    assume "filter (\<lambda>t. 2 \<le> length t) (map plumber_filter (concat pages)) = t1 # ts"
    then show "fst (plumber_pages_loop pages ([], 0)) =
        t1 @ concat (map (\<lambda>t. if is_header_row (t ! 0) (t1 ! 0) then drop 1 t else t) ts)
      \<and> total_rows (plumber_result pages) =
        length t1 + (\<Sum>t\<leftarrow>ts. length t - (if is_header_row (t ! 0) (t1 ! 0) then 1 else 0))"
      unfolding plumber_pages_loop_rows plumber_result_fields by (rule merged)
  qed
  have fallback:
    "filter (\<lambda>t. 2 \<le> length t) (map camelot_filter tables) = u1 # us \<longrightarrow>
      camelot_tables_loop tables [] =
        u1 @ concat (map (\<lambda>t. if is_header_row (t ! 0) (u1 ! 0) then drop 1 t else t) us)
      \<and> total_rows (camelot_result tables) =
        length u1 + (\<Sum>t\<leftarrow>us. length t - (if is_header_row (t ! 0) (u1 ! 0) then 1 else 0))"
  proof
    assume "filter (\<lambda>t. 2 \<le> length t) (map camelot_filter tables) = u1 # us"
    then show "camelot_tables_loop tables [] =
        u1 @ concat (map (\<lambda>t. if is_header_row (t ! 0) (u1 ! 0) then drop 1 t else t) us)
      \<and> total_rows (camelot_result tables) =
        length u1 + (\<Sum>t\<leftarrow>us. length t - (if is_header_row (t ! 0) (u1 ! 0) then 1 else 0))"
      unfolding camelot_tables_loop_foldl camelot_result_fields by (rule merged)
  qed
  from primary fallback show ?thesis by (rule conjI)
qed

theorem merged_rows_of_surviving_tables_witness:
  "filter (\<lambda>t. 2 \<le> length t)
     (map plumber_filter
        (concat [[[[PyStr ''Date'', PyStr ''Amount''], [PyStr ''01/01'', PyStr ''5'']],
                  [[PyStr ''Page 1'']]],
                 [[[PyStr '' DATE '', PyNone], [PyNone, PyNone], [PyStr ''02/01'', PyStr ''7'']]]]))
     = [[PyStr ''Date'', PyStr ''Amount''], [PyStr ''01/01'', PyStr ''5'']]
       # [[[PyStr '' DATE '', PyNone], [PyStr ''02/01'', PyStr ''7'']]]
   \<and> filter (\<lambda>t. 2 \<le> length t)
     (map camelot_filter
        [[[PyStr ''Date'', PyStr ''Amount''], [PyStr ''01/01'', PyStr ''5'']],
         [[PyStr ''Balance'', PyStr ''''], [PyStr ''02/01'', PyStr ''7'']]])
     = [[PyStr ''Date'', PyStr ''Amount''], [PyStr ''01/01'', PyStr ''5'']]
       # [[[PyStr ''Balance'', PyStr ''''], [PyStr ''02/01'', PyStr ''7'']]]
   \<and> fst (plumber_pages_loop
            [[[[PyStr ''Date'', PyStr ''Amount''], [PyStr ''01/01'', PyStr ''5'']],
              [[PyStr ''Page 1'']]],
             [[[PyStr '' DATE '', PyNone], [PyNone, PyNone], [PyStr ''02/01'', PyStr ''7'']]]]
            ([], 0))
     = [[PyStr ''Date'', PyStr ''Amount''], [PyStr ''01/01'', PyStr ''5''],
        [PyStr ''02/01'', PyStr ''7'']]
   \<and> total_rows (plumber_result
            [[[[PyStr ''Date'', PyStr ''Amount''], [PyStr ''01/01'', PyStr ''5'']],
              [[PyStr ''Page 1'']]],
             [[[PyStr '' DATE '', PyNone], [PyNone, PyNone], [PyStr ''02/01'', PyStr ''7'']]]])
     = 3
   \<and> total_rows (camelot_result
        [[[PyStr ''Date'', PyStr ''Amount''], [PyStr ''01/01'', PyStr ''5'']],
         [[PyStr ''Balance'', PyStr ''''], [PyStr ''02/01'', PyStr ''7'']]])
     = 4"
proof -
  have p: "filter (\<lambda>t. 2 \<le> length t)
     (map plumber_filter
        (concat [[[[PyStr ''Date'', PyStr ''Amount''], [PyStr ''01/01'', PyStr ''5'']],
                  [[PyStr ''Page 1'']]],
                 [[[PyStr '' DATE '', PyNone], [PyNone, PyNone], [PyStr ''02/01'', PyStr ''7'']]]]))
     = [[PyStr ''Date'', PyStr ''Amount''], [PyStr ''01/01'', PyStr ''5'']]
       # [[[PyStr '' DATE '', PyNone], [PyStr ''02/01'', PyStr ''7'']]]"
    by (simp add: plumber_filter_def strip_def isspace_def)
  have c: "filter (\<lambda>t. 2 \<le> length t)
     (map camelot_filter
        [[[PyStr ''Date'', PyStr ''Amount''], [PyStr ''01/01'', PyStr ''5'']],
         [[PyStr ''Balance'', PyStr ''''], [PyStr ''02/01'', PyStr ''7'']]])
     = [[PyStr ''Date'', PyStr ''Amount''], [PyStr ''01/01'', PyStr ''5'']]
       # [[[PyStr ''Balance'', PyStr ''''], [PyStr ''02/01'', PyStr ''7'']]]"
    by (simp add: camelot_filter_def strip_def isspace_def)
  have h1: "is_header_row [PyStr '' DATE '', PyNone] [PyStr ''Date'', PyStr ''Amount'']"
    by code_simp
  have h2: "\<not> is_header_row [PyStr ''Balance'', PyStr ''''] [PyStr ''Date'', PyStr ''Amount'']"
    by code_simp
  from merged_rows_of_surviving_tables
         [of "[[[[PyStr ''Date'', PyStr ''Amount''], [PyStr ''01/01'', PyStr ''5'']],
                [[PyStr ''Page 1'']]],
               [[[PyStr '' DATE '', PyNone], [PyNone, PyNone], [PyStr ''02/01'', PyStr ''7'']]]]"
             "[[PyStr ''Date'', PyStr ''Amount''], [PyStr ''01/01'', PyStr ''5'']]"
             "[[[PyStr '' DATE '', PyNone], [PyStr ''02/01'', PyStr ''7'']]]"
             "[[[PyStr ''Date'', PyStr ''Amount''], [PyStr ''01/01'', PyStr ''5'']],
               [[PyStr ''Balance'', PyStr ''''], [PyStr ''02/01'', PyStr ''7'']]]"
             "[[PyStr ''Date'', PyStr ''Amount''], [PyStr ''01/01'', PyStr ''5'']]"
             "[[[PyStr ''Balance'', PyStr ''''], [PyStr ''02/01'', PyStr ''7'']]]"]
       p c h1 h2
  show ?thesis by simp
qed

section \<open>Claims about the Fallback Extractor\<close>

text \<open>
  Claim C6. When the camelot call that delivers the tables finds none, the result is
  \<open>{rows: [], pages_processed: 0, method_used: "camelot", total_rows: 0}\<close>; in every
  case \<open>pages_processed\<close> is the number of tables camelot found.
\<close>

theorem camelot_no_tables_and_page_count:
  assumes "lattice_tables pdf = Inr tables
           \<or> (lattice_tables pdf = Inl e \<and> stream_tables pdf = Inr tables)"
  shows "\<exists>r. fst (extract_with_camelot pdf log) = Inr r
             \<and> pages_processed r = length tables
             \<and> (tables = [] \<longrightarrow>
                  r = \<lparr>rows = [], pages_processed = 0, method_used = ''camelot'', total_rows = 0\<rparr>)"
  using assms
  by (auto simp: extract_with_camelot_result camelot_result_fields) (simp_all add: camelot_result_def)

theorem camelot_no_tables_and_page_count_witness:
  "lattice_tables \<lparr>plumber_pages = Inr [], lattice_tables = Inr [], stream_tables = Inl ''unused''\<rparr> = Inr []
   \<and> fst (extract_with_camelot
            \<lparr>plumber_pages = Inr [], lattice_tables = Inr [], stream_tables = Inl ''unused''\<rparr> [])
       = Inr \<lparr>rows = [], pages_processed = 0, method_used = ''camelot'', total_rows = 0\<rparr>"
  using camelot_no_tables_and_page_count
          [of "\<lparr>plumber_pages = Inr [], lattice_tables = Inr [], stream_tables = Inl ''unused''\<rparr>"
              "[]" "''''" "[]"]
  by auto

text \<open>
  Claim C7. When lattice mode raises, the fallback extractor calls stream mode and its
  result is the one computed from stream mode's tables: the same as if lattice mode had
  delivered what stream mode delivers.
\<close>

theorem lattice_error_falls_through_to_stream:
  assumes "lattice_tables pdf = Inl e"
  shows "(\<forall>tables. stream_tables pdf = Inr tables \<longrightarrow>
            fst (extract_with_camelot pdf log) = Inr (camelot_result tables))
         \<and> fst (extract_with_camelot pdf log) =
             fst (extract_with_camelot (pdf\<lparr>lattice_tables := stream_tables pdf\<rparr>) log)
         \<and> snd (extract_with_camelot pdf log) = log @ [CamelotLattice, CamelotStream]"
  using assms
  by (auto simp: extract_with_camelot_result extract_with_camelot_log map_sum_def split: sum.splits)

theorem lattice_error_falls_through_to_stream_witness:
  "lattice_tables \<lparr>plumber_pages = Inr [], lattice_tables = Inl ''boom'',
                   stream_tables = Inr [[[PyStr ''Date''], [PyStr ''01/01'']]]\<rparr> = Inl ''boom''
   \<and> fst (extract_with_camelot
            \<lparr>plumber_pages = Inr [], lattice_tables = Inl ''boom'',
             stream_tables = Inr [[[PyStr ''Date''], [PyStr ''01/01'']]]\<rparr> [])
       = Inr (camelot_result [[[PyStr ''Date''], [PyStr ''01/01'']]])"
  using lattice_error_falls_through_to_stream
          [of "\<lparr>plumber_pages = Inr [], lattice_tables = Inl ''boom'',
                stream_tables = Inr [[[PyStr ''Date''], [PyStr ''01/01'']]]\<rparr>"
              "''boom''" "[]"]
  by simp

section \<open>Claims about both extractors\<close>

text \<open>
  Claim C10. In every result of either extractor the number of cleaned rows equals
  \<open>total_rows\<close>: each merged row passed the extractor's row filter, so cleaning keeps it.
\<close>

theorem total_rows_eq_cleaned_rows:
  assumes "fst (extract_with_pdfplumber pdf log) = Inr r \<or> fst (extract_with_camelot pdf log) = Inr r"
  shows "length (rows r) = total_rows r"
  using assms
proof
  assume "fst (extract_with_pdfplumber pdf log) = Inr r"
  then obtain pages where "r = plumber_result pages"
    by (auto simp: extract_with_pdfplumber_result map_sum_def split: sum.splits)
  then show ?thesis by (simp only: plumber_result_count)
next
  assume "fst (extract_with_camelot pdf log) = Inr r"
  then obtain tables where "r = camelot_result tables"
    by (auto simp: extract_with_camelot_result map_sum_def split: sum.splits)
  then show ?thesis by (simp only: camelot_result_count)
qed

theorem total_rows_eq_cleaned_rows_witness:
  "fst (extract_with_pdfplumber
          \<lparr>plumber_pages = Inr [[[[PyStr ''Date'', PyNone], [PyStr '' 01/01 '', PyStr ''5'']]]],
           lattice_tables = Inl ''no lines'', stream_tables = Inr []\<rparr> [])
     = Inr \<lparr>rows = [[PyStr ''Date'', PyStr []], [PyStr ''01/01'', PyStr ''5'']],
            pages_processed = 1, method_used = ''pdfplumber'', total_rows = 2\<rparr>
   \<and> length (rows \<lparr>rows = [[PyStr ''Date'', PyStr []], [PyStr ''01/01'', PyStr ''5'']],
                     pages_processed = 1, method_used = ''pdfplumber'', total_rows = 2\<rparr>)
     = total_rows \<lparr>rows = [[PyStr ''Date'', PyStr []], [PyStr ''01/01'', PyStr ''5'']],
                    pages_processed = 1, method_used = ''pdfplumber'', total_rows = 2\<rparr>"
proof -
  have h: "fst (extract_with_pdfplumber
          \<lparr>plumber_pages = Inr [[[[PyStr ''Date'', PyNone], [PyStr '' 01/01 '', PyStr ''5'']]]],
           lattice_tables = Inl ''no lines'', stream_tables = Inr []\<rparr> [])
     = Inr \<lparr>rows = [[PyStr ''Date'', PyStr []], [PyStr ''01/01'', PyStr ''5'']],
            pages_processed = 1, method_used = ''pdfplumber'', total_rows = 2\<rparr>"
    by (simp add: extract_with_pdfplumber_def plumber_result_def plumber_filter_def
          merge_table_def clean_rows_def clean_row_def strip_def isspace_def)
  from total_rows_eq_cleaned_rows [OF disjI1, OF h] h show ?thesis by (rule conjI [rotated])
qed

end
